theory Spec2Isabelle
  imports Main "HOL-Library.Multiset"
begin

section \<open>Python values\<close>

text \<open>
  The exceptions the pipeline can raise. \<open>CalledProcessError\<close> is what
  \<^verbatim>\<open>subprocess.check_output\<close> raises when \<^verbatim>\<open>git log\<close> fails,
  \<open>InvalidGitRepositoryError\<close> what \<^verbatim>\<open>git.Repo\<close> raises where there is no
  repository, \<open>GitCommandError\<close> stands for a failure of the repository client.
\<close>

datatype error =
    AttributeError | KeyError | TypeError | ValueError
  | CalledProcessError | InvalidGitRepositoryError | GitCommandError

text \<open>
  The generic tree a decoded document is made of, as native Python values: \<open>JObj\<close> is
  a \<^verbatim>\<open>dict\<close> with string keys in insertion order, \<open>JArr\<close> a \<^verbatim>\<open>list\<close>.
  Numbers are integers: the pipeline copies numbers and never computes with them.
\<close>

datatype json =
    JNull
  | JBool bool
  | JInt int
  | JStr string
  | JArr "json list"
  | JObj "(string \<times> json) list"

text \<open>\<^verbatim>\<open>d.get(k, default)\<close> on the items of a dict.\<close>

definition dict_get :: "(string \<times> json) list \<Rightarrow> string \<Rightarrow> json \<Rightarrow> json" where
  "dict_get kv k d = (case map_of kv k of Some v \<Rightarrow> v | None \<Rightarrow> d)"

text \<open>\<^verbatim>\<open>x.get(k, default)\<close>: only a dict has the method.\<close>

fun py_get :: "json \<Rightarrow> string \<Rightarrow> json \<Rightarrow> error + json" where
  "py_get (JObj kv) k d = Inr (dict_get kv k d)"
| "py_get _ k d = Inl AttributeError"

text \<open>\<^verbatim>\<open>x[k]\<close> with a string key \<open>k\<close>.\<close>

fun py_getitem :: "json \<Rightarrow> string \<Rightarrow> error + json" where
  "py_getitem (JObj kv) k = (case map_of kv k of Some v \<Rightarrow> Inr v | None \<Rightarrow> Inl KeyError)"
| "py_getitem _ k = Inl TypeError"

text \<open>
  \<^verbatim>\<open>for x in v\<close>: a list gives its elements, a dict its keys, a string its
  characters; nothing else is iterable.
\<close>

fun py_iter :: "json \<Rightarrow> error + json list" where
  "py_iter (JArr xs) = Inr xs"
| "py_iter (JObj kv) = Inr (map (\<lambda>p. JStr (fst p)) kv)"
| "py_iter (JStr s) = Inr (map (\<lambda>c. JStr [c]) s)"
| "py_iter _ = Inl TypeError"

text \<open>A list comprehension whose element expression may raise: the first error wins.\<close>

fun mapE :: "('a \<Rightarrow> error + 'b) \<Rightarrow> 'a list \<Rightarrow> error + 'b list" where
  "mapE f [] = Inr []"
| "mapE f (x # xs) =
     (case f x of
        Inl e \<Rightarrow> Inl e
      | Inr y \<Rightarrow> (case mapE f xs of Inl e \<Rightarrow> Inl e | Inr ys \<Rightarrow> Inr (y # ys)))"

section \<open>Timestamps\<close>

text \<open>
  A \<^verbatim>\<open>datetime.datetime\<close>: its wall-clock reading as one number (microseconds
  from the first instant of the calendar, which orders readings as their fields do) and
  its UTC offset in microseconds, \<open>None\<close> for a naive value.
\<close>

datatype datetime = Datetime (wall: int) (utcoffset: "int option")

definition is_aware :: "datetime \<Rightarrow> bool" where
  "is_aware d = (utcoffset d \<noteq> None)"

text \<open>The point in time two aware values are compared by; the reading itself when naive.\<close>

definition instant :: "datetime \<Rightarrow> int" where
  "instant d = (case utcoffset d of None \<Rightarrow> wall d | Some off \<Rightarrow> wall d - off)"

text \<open>
  The \<open>timestamp\<close> field of a record holds a \<^verbatim>\<open>datetime\<close>, or whatever value a
  cache row carried there when that value was not a string.
\<close>

datatype tsval = TsDatetime datetime | TsRaw json

section \<open>The environment\<close>

text \<open>
  What the program calls and does not define: version control
  (\<open>git_log\<close> is the outcome of \<^verbatim>\<open>git log --format=%H path\<close> split in lines,
  \<open>git_Repo\<close> the outcome of opening the repository with \<^verbatim>\<open>git.Repo\<close> on line 84,
  \<open>git_show\<close> the content of a file at a revision), the document parser followed by
  \<^verbatim>\<open>to_python_type\<close>, and the \<^verbatim>\<open>datetime\<close> library.
  \<open>fromisoformat\<close> is \<open>None\<close> where \<^verbatim>\<open>datetime.datetime\<close> has no such attribute;
  \<open>strptime\<close> is \<^verbatim>\<open>strptime\<close> at the format \<^verbatim>\<open>%Y-%m-%dT%H:%M:%S.%f\<close>.
\<close>

record env =
  git_log :: "string \<Rightarrow> error + string list"
  git_Repo :: "error + unit"
  git_show :: "string \<Rightarrow> string \<Rightarrow> error + string"
  simdjson_parse :: "string \<Rightarrow> error + json"
  fromisoformat :: "(string \<Rightarrow> error + datetime) option"
  strptime :: "string \<Rightarrow> error + datetime"
  isoformat :: "datetime \<Rightarrow> string"

text \<open>
  \<^verbatim>\<open>datetime.datetime.fromisoformat(s)\<close>; without the attribute the call is an
  \<^verbatim>\<open>AttributeError\<close>.
\<close>

definition py_fromisoformat :: "env \<Rightarrow> string \<Rightarrow> error + datetime" where
  "py_fromisoformat E s = (case fromisoformat E of None \<Rightarrow> Inl AttributeError | Some f \<Rightarrow> f s)"

text \<open>\<^verbatim>\<open>s.replace("Z", "+00:00")\<close>.\<close>

definition replace_Z :: "string \<Rightarrow> string" where
  "replace_Z s = concat (map (\<lambda>c. if c = CHR ''Z'' then ''+00:00'' else [c]) s)"

text \<open>\<^verbatim>\<open>parse_isoformat\<close>, applied to any value.\<close>

definition parse_isoformat :: "env \<Rightarrow> json \<Rightarrow> error + datetime" where
  "parse_isoformat E v =
     (case fromisoformat E of
        Some f \<Rightarrow> (case v of JStr s \<Rightarrow> f s | _ \<Rightarrow> Inl TypeError)
      | None \<Rightarrow>
          (case v of
             JStr s \<Rightarrow>
               strptime E (if s \<noteq> [] \<and> last s = CHR ''Z'' then butlast s else s)
           | _ \<Rightarrow> Inl AttributeError))"

section \<open>Records\<close>

record InputRecord =
  timestamp :: tsval
  state_name :: json
  state_abbrev :: json
  electoral_votes :: json
  candidates :: json
  votes :: json
  expected_votes :: json
  precincts_total :: json
  precincts_reporting :: json
  counties :: json

definition InputRecord_fields :: "string list" where
  "InputRecord_fields =
     [''timestamp'', ''state_name'', ''state_abbrev'', ''electoral_votes'', ''candidates'',
      ''votes'', ''expected_votes'', ''precincts_total'', ''precincts_reporting'',
      ''counties'']"

section \<open>The normalizer\<close>

text \<open>One element of the comprehension of line 56.\<close>

definition candidate_entry :: "json \<Rightarrow> error + json" where
  "candidate_entry c =
     (case py_get c ''nyt_id'' (JStr []) of
        Inl e \<Rightarrow> Inl e
      | Inr last_name \<Rightarrow>
          (case py_getitem c ''votes'' of
             Inl e \<Rightarrow> Inl e
           | Inr v \<Rightarrow>
               (case py_getitem v ''total'' of
                  Inl e \<Rightarrow> Inl e
                | Inr tot \<Rightarrow>
                    Inr (JObj [(''last_name'', last_name), (''votes'', tot)]))))"

text \<open>The body of the loop over reporting units, lines 56 to 68.\<close>

definition unit_record ::
  "(string \<times> json) list \<Rightarrow> datetime \<Rightarrow> json \<Rightarrow> error + InputRecord" where
  "unit_record race updated_at unit =
     (case py_get unit ''candidates'' (JArr []) of
        Inl e \<Rightarrow> Inl e
      | Inr cs \<Rightarrow>
          (case py_iter cs of
             Inl e \<Rightarrow> Inl e
           | Inr cl \<Rightarrow>
               (case mapE candidate_entry cl of
                  Inl e \<Rightarrow> Inl e
                | Inr cands \<Rightarrow>
                    (case unit of
                       JObj u \<Rightarrow>
                         Inr \<lparr>timestamp = TsDatetime updated_at,
                              state_name = dict_get u ''name'' (JStr ''Unknown''),
                              state_abbrev = dict_get u ''state_abb'' (JStr ''Unknown''),
                              electoral_votes = dict_get race ''electoral_votes'' (JInt 0),
                              candidates = JArr cands,
                              votes = dict_get u ''total_votes'' (JInt 0),
                              expected_votes = dict_get u ''total_expected_vote'' (JInt 0),
                              precincts_total = dict_get u ''precincts_total'' (JInt 0),
                              precincts_reporting = dict_get u ''precincts_reporting'' (JInt 0),
                              counties = JObj []\<rparr>
                     | _ \<Rightarrow> Inl AttributeError))))"

text \<open>The loop over the reporting units of one race; \<open>records\<close> is the accumulator.\<close>

fun units_loop ::
  "(string \<times> json) list \<Rightarrow> datetime \<Rightarrow> json list \<Rightarrow> InputRecord list
     \<Rightarrow> error + InputRecord list" where
  "units_loop race updated_at [] records = Inr records"
| "units_loop race updated_at (unit # units) records =
     (case unit_record race updated_at unit of
        Inl e \<Rightarrow> Inl e
      | Inr record \<Rightarrow> units_loop race updated_at units (records @ [record]))"

text \<open>The body of the loop over races, lines 54 to 69.\<close>

definition race_body :: "env \<Rightarrow> json \<Rightarrow> InputRecord list \<Rightarrow> error + InputRecord list" where
  "race_body E race records =
     (case race of
        JObj r \<Rightarrow>
          (case dict_get r ''updated_at'' JNull of
             JStr s \<Rightarrow>
               (case py_fromisoformat E (replace_Z s) of
                  Inl e \<Rightarrow> Inl e
                | Inr updated_at \<Rightarrow>
                    (case py_iter (dict_get r ''reporting_units'' (JArr [])) of
                       Inl e \<Rightarrow> Inl e
                     | Inr units \<Rightarrow> units_loop r updated_at units records))
           | _ \<Rightarrow> Inl AttributeError)
      | _ \<Rightarrow> Inl AttributeError)"

fun races_loop :: "env \<Rightarrow> json list \<Rightarrow> InputRecord list \<Rightarrow> error + InputRecord list" where
  "races_loop E [] records = Inr records"
| "races_loop E (race # races) records =
     (case race_body E race records of
        Inl e \<Rightarrow> Inl e
      | Inr records' \<Rightarrow> races_loop E races records')"

definition process_json_data :: "env \<Rightarrow> json \<Rightarrow> error + InputRecord list" where
  "process_json_data E json_data =
     (case py_get json_data ''races'' (JArr []) of
        Inl e \<Rightarrow> Inl e
      | Inr rs \<Rightarrow>
          (case py_iter rs of
             Inl e \<Rightarrow> Inl e
           | Inr races \<Rightarrow> races_loop E races []))"

section \<open>The cache\<close>

definition CACHE_DIR :: string where
  "CACHE_DIR = ''_cache''"

definition CACHE_VERSION :: int where
  "CACHE_VERSION = 2"

text \<open>
  \<^verbatim>\<open>os.path.join(CACHE_DIR, ref[:2], ref[2:] + ".json")\<close>, kept as its three
  components.
\<close>

definition cache_path :: "string \<Rightarrow> string list" where
  "cache_path ref = [CACHE_DIR, take 2 ref, drop 2 ref @ ''.json'']"

text \<open>
  A file of the cache directory, by what \<^verbatim>\<open>json.load\<close> makes of it: a
  \<^verbatim>\<open>ValueError\<close> (\<open>Unparseable\<close>) or a value. \<^verbatim>\<open>json.dump\<close> writes a file that
  loads as the value dumped. The file system maps a path to the file there.
\<close>

datatype cache_file = Unparseable | Parsed json

type_synonym filesystem = "string list \<Rightarrow> cache_file option"

text \<open>
  \<^verbatim>\<open>InputRecord(**row_data)\<close>: every field but \<open>timestamp\<close> (already
  converted) is taken from the row, and a missing or an unexpected key is a
  \<^verbatim>\<open>TypeError\<close>.
\<close>

definition InputRecord_kw :: "tsval \<Rightarrow> (string \<times> json) list \<Rightarrow> error + InputRecord" where
  "InputRecord_kw ts kv =
     (case
        Option.bind (map_of kv ''state_name'') (\<lambda>a.
        Option.bind (map_of kv ''state_abbrev'') (\<lambda>b.
        Option.bind (map_of kv ''electoral_votes'') (\<lambda>c.
        Option.bind (map_of kv ''candidates'') (\<lambda>d.
        Option.bind (map_of kv ''votes'') (\<lambda>e.
        Option.bind (map_of kv ''expected_votes'') (\<lambda>f.
        Option.bind (map_of kv ''precincts_total'') (\<lambda>g.
        Option.bind (map_of kv ''precincts_reporting'') (\<lambda>h.
        Option.bind (map_of kv ''counties'') (\<lambda>i.
          Some \<lparr>timestamp = ts, state_name = a, state_abbrev = b, electoral_votes = c,
                candidates = d, votes = e, expected_votes = f, precincts_total = g,
                precincts_reporting = h, counties = i\<rparr>)))))))))
      of
        None \<Rightarrow> Inl TypeError
      | Some r \<Rightarrow>
          if list_all (\<lambda>k. k \<in> set InputRecord_fields) (map fst kv) then Inr r
          else Inl TypeError)"

text \<open>The body of the loop over the rows of a cache entry, lines 99 to 102.\<close>

definition row_record :: "env \<Rightarrow> json \<Rightarrow> error + InputRecord" where
  "row_record E row =
     (case row of
        JObj kv \<Rightarrow>
          (case map_of kv ''timestamp'' of
             None \<Rightarrow> Inl KeyError
           | Some t \<Rightarrow>
               (case t of
                  JStr s \<Rightarrow>
                    (case parse_isoformat E (JStr s) of
                       Inl e \<Rightarrow> Inl e
                     | Inr d \<Rightarrow> InputRecord_kw (TsDatetime d) kv)
                | _ \<Rightarrow> InputRecord_kw (TsRaw t) kv))
      | _ \<Rightarrow> Inl TypeError)"

fun rows_loop :: "env \<Rightarrow> json list \<Rightarrow> InputRecord list \<Rightarrow> error + InputRecord list" where
  "rows_loop E [] out = Inr out"
| "rows_loop E (row # rows) out =
     (case row_record E row of
        Inl e \<Rightarrow> Inl e
      | Inr r \<Rightarrow> rows_loop E rows (out @ [r]))"

text \<open>
  Lines 91 to 103, by how they leave: \<open>Served\<close> is the \<^verbatim>\<open>continue\<close> of line 103
  with the rows appended, \<open>Skipped\<close> the \<^verbatim>\<open>continue\<close> of line 96, \<open>Fallthrough\<close>
  reaches line 105, \<open>Raised\<close> is an exception nothing catches.
\<close>

datatype cache_outcome =
    Served "InputRecord list" | Skipped | Fallthrough | Raised error

definition read_cache ::
  "env \<Rightarrow> filesystem \<Rightarrow> string \<Rightarrow> InputRecord list \<Rightarrow> cache_outcome" where
  "read_cache E fs ref out =
     (case fs (cache_path ref) of
        None \<Rightarrow> Fallthrough
      | Some Unparseable \<Rightarrow> Skipped
      | Some (Parsed record) \<Rightarrow>
          (case py_get record ''version'' JNull of
             Inl e \<Rightarrow> Raised e
           | Inr v \<Rightarrow>
               if v = JInt CACHE_VERSION then
                 (case py_get record ''rows'' (JArr []) of
                    Inl e \<Rightarrow> Raised e
                  | Inr rows \<Rightarrow>
                      (case py_iter rows of
                         Inl e \<Rightarrow> Raised e
                       | Inr rs \<Rightarrow>
                           (case rows_loop E rs out of
                              Inl e \<Rightarrow> Raised e
                            | Inr out' \<Rightarrow> Served out')))
               else Fallthrough))"

text \<open>One element of \<^verbatim>\<open>rows_for_cache\<close>, lines 112 to 115.\<close>

definition row_for_cache :: "env \<Rightarrow> InputRecord \<Rightarrow> json" where
  "row_for_cache E row =
     JObj [(''timestamp'',
              (case timestamp row of TsDatetime d \<Rightarrow> JStr (isoformat E d) | TsRaw v \<Rightarrow> v)),
           (''state_name'', state_name row),
           (''state_abbrev'', state_abbrev row),
           (''electoral_votes'', electoral_votes row),
           (''candidates'', candidates row),
           (''votes'', votes row),
           (''expected_votes'', expected_votes row),
           (''precincts_total'', precincts_total row),
           (''precincts_reporting'', precincts_reporting row),
           (''counties'', counties row)]"

text \<open>
  Lines 111 to 117: the entry written for a revision. Creating the directory and
  writing the file are taken to succeed.
\<close>

definition cache_entry :: "env \<Rightarrow> InputRecord list \<Rightarrow> json" where
  "cache_entry E rows =
     JObj [(''version'', JInt CACHE_VERSION), (''rows'', JArr (map (row_for_cache E) rows))]"

definition write_cache :: "env \<Rightarrow> filesystem \<Rightarrow> string \<Rightarrow> InputRecord list \<Rightarrow> filesystem" where
  "write_cache E fs ref rows = fs(cache_path ref \<mapsto> Parsed (cache_entry E rows))"

section \<open>The aggregator\<close>

text \<open>Lines 105 to 108: the rows of a revision from version control.\<close>

definition fetch_rows :: "env \<Rightarrow> string \<Rightarrow> error + InputRecord list" where
  "fetch_rows E ref =
     (case git_show E ref ''results.json'' of
        Inl e \<Rightarrow> Inl e
      | Inr blob \<Rightarrow>
          (case simdjson_parse E blob of
             Inl e \<Rightarrow> Inl e
           | Inr json_data \<Rightarrow> process_json_data E json_data))"

text \<open>
  The loop over the revisions, lines 88 to 117. The state is the list \<open>out\<close> and the
  file system; an exception leaves the loop with the file system as it then is.
\<close>

fun commits_loop ::
  "env \<Rightarrow> string list \<Rightarrow> InputRecord list \<Rightarrow> filesystem
     \<Rightarrow> (error + InputRecord list) \<times> filesystem" where
  "commits_loop E [] out fs = (Inr out, fs)"
| "commits_loop E (ref # commits) out fs =
     (case read_cache E fs ref out of
        Served out' \<Rightarrow> commits_loop E commits out' fs
      | Skipped \<Rightarrow> commits_loop E commits out fs
      | Raised e \<Rightarrow> (Inl e, fs)
      | Fallthrough \<Rightarrow>
          (case fetch_rows E ref of
             Inl e \<Rightarrow> (Inl e, fs)
           | Inr rows \<Rightarrow> commits_loop E commits (out @ rows) (write_cache E fs ref rows)))"

text \<open>The key of line 119.\<close>

definition sort_key_of :: "env \<Rightarrow> InputRecord \<Rightarrow> error + datetime" where
  "sort_key_of E row =
     (case timestamp row of TsDatetime d \<Rightarrow> Inr d | TsRaw v \<Rightarrow> parse_isoformat E v)"

text \<open>
  \<^verbatim>\<open>out.sort(key=...)\<close>: the keys are computed first, then the list is sorted on
  them, stably. Comparing a naive with an aware \<^verbatim>\<open>datetime\<close> is a
  \<^verbatim>\<open>TypeError\<close>, and sorting a list that holds both compares such a pair.
\<close>

definition sort_out :: "env \<Rightarrow> InputRecord list \<Rightarrow> error + InputRecord list" where
  "sort_out E out =
     (case mapE (sort_key_of E) out of
        Inl e \<Rightarrow> Inl e
      | Inr keys \<Rightarrow>
          if list_all is_aware keys \<or> list_all (\<lambda>d. \<not> is_aware d) keys
          then Inr (map snd (sort_key (\<lambda>p. instant (fst p)) (zip keys out)))
          else Inl TypeError)"

text \<open>
  The keys of a \<^verbatim>\<open>dict\<close>: a list or a dict is not hashable, and \<^verbatim>\<open>True\<close> and
  \<^verbatim>\<open>False\<close> are the keys \<open>1\<close> and \<open>0\<close>.
\<close>

fun hash_key :: "json \<Rightarrow> error + json" where
  "hash_key (JArr xs) = Inl TypeError"
| "hash_key (JObj kv) = Inl TypeError"
| "hash_key (JBool b) = Inr (JInt (if b then 1 else 0))"
| "hash_key v = Inr v"

text \<open>
  The grouped series: a \<^verbatim>\<open>defaultdict(list)\<close> as its items in insertion order,
  each with the hashed form of its key. \<open>grouped_append\<close> is
  \<^verbatim>\<open>grouped[k].append(row)\<close> for a hashable \<open>k\<close> of hashed form \<open>h\<close>.
\<close>

type_synonym grouped = "(json \<times> json \<times> InputRecord list) list"

fun grouped_append :: "grouped \<Rightarrow> json \<Rightarrow> json \<Rightarrow> InputRecord \<Rightarrow> grouped" where
  "grouped_append [] h k row = [(h, k, [row])]"
| "grouped_append ((h', k', rows) # g) h k row =
     (if h' = h then (h', k', rows @ [row]) # g
      else (h', k', rows) # grouped_append g h k row)"

fun group_loop :: "InputRecord list \<Rightarrow> grouped \<Rightarrow> error + grouped" where
  "group_loop [] grouped = Inr grouped"
| "group_loop (row # out) grouped =
     (case hash_key (state_name row) of
        Inl e \<Rightarrow> Inl e
      | Inr h \<Rightarrow> group_loop out (grouped_append grouped h (state_name row) row))"

text \<open>\<^verbatim>\<open>grouped[k]\<close> read by a consumer: the rows under a hashed key, none if absent.\<close>

fun grouped_rows :: "grouped \<Rightarrow> json \<Rightarrow> InputRecord list" where
  "grouped_rows [] h = []"
| "grouped_rows ((h', k', rows) # g) h = (if h' = h then rows else grouped_rows g h)"

text \<open>
  \<^verbatim>\<open>fetch_all_records\<close>, lines 83 to 124: the revisions are listed, the repository is
  opened, then the loop, the sort and the grouping run. An exception of the first two
  steps leaves the cache untouched.
\<close>

definition fetch_all_records ::
  "env \<Rightarrow> filesystem \<Rightarrow> (error + grouped) \<times> filesystem" where
  "fetch_all_records E fs =
     (case git_log E ''results.json'' of
        Inl e \<Rightarrow> (Inl e, fs)
      | Inr commits \<Rightarrow>
          (case git_Repo E of
             Inl e \<Rightarrow> (Inl e, fs)
           | Inr repo \<Rightarrow>
               (case commits_loop E commits [] fs of
                  (Inl e, fs') \<Rightarrow> (Inl e, fs')
                | (Inr out, fs') \<Rightarrow>
                    (case sort_out E out of
                       Inl e \<Rightarrow> (Inl e, fs')
                     | Inr sorted_out \<Rightarrow>
                         (case group_loop sorted_out [] of
                            Inl e \<Rightarrow> (Inl e, fs')
                          | Inr grouped \<Rightarrow> (Inr grouped, fs'))))))"

section \<open>The normalizer, as specified\<close>

text \<open>
  The output the specification describes for a document of the expected shape, to be
  compared with \<open>process_json_data\<close>: one record for each reporting unit of each race,
  in document order.
\<close>

definition elements :: "json \<Rightarrow> json list" where
  "elements v = (case py_iter v of Inr xs \<Rightarrow> xs | Inl e \<Rightarrow> [])"

fun field_or :: "json \<Rightarrow> string \<Rightarrow> json \<Rightarrow> json" where
  "field_or (JObj kv) k d = dict_get kv k d"
| "field_or _ k d = d"

fun is_object :: "json \<Rightarrow> bool" where
  "is_object (JObj kv) = True"
| "is_object _ = False"

fun is_array :: "json \<Rightarrow> bool" where
  "is_array (JArr xs) = True"
| "is_array _ = False"

text \<open>The reported count of a candidate, where it has one.\<close>

definition count_of :: "json \<Rightarrow> json option" where
  "count_of c =
     (case py_getitem c ''votes'' of
        Inr v \<Rightarrow> (case py_getitem v ''total'' of Inr n \<Rightarrow> Some n | Inl e \<Rightarrow> None)
      | Inl e \<Rightarrow> None)"

text \<open>The update time of a race, where it carries one that parses.\<close>

definition race_time :: "env \<Rightarrow> json \<Rightarrow> datetime option" where
  "race_time E race =
     (case field_or race ''updated_at'' JNull of
        JStr s \<Rightarrow>
          (case py_fromisoformat E (replace_Z s) of Inr t \<Rightarrow> Some t | Inl e \<Rightarrow> None)
      | _ \<Rightarrow> None)"

definition expected_entry :: "json \<Rightarrow> json" where
  "expected_entry c =
     JObj [(''last_name'', field_or c ''nyt_id'' (JStr [])), (''votes'', the (count_of c))]"

definition expected_record :: "env \<Rightarrow> json \<Rightarrow> json \<Rightarrow> InputRecord" where
  "expected_record E race unit =
     \<lparr>timestamp = TsDatetime (the (race_time E race)),
      state_name = field_or unit ''name'' (JStr ''Unknown''),
      state_abbrev = field_or unit ''state_abb'' (JStr ''Unknown''),
      electoral_votes = field_or race ''electoral_votes'' (JInt 0),
      candidates = JArr (map expected_entry (elements (field_or unit ''candidates'' (JArr [])))),
      votes = field_or unit ''total_votes'' (JInt 0),
      expected_votes = field_or unit ''total_expected_vote'' (JInt 0),
      precincts_total = field_or unit ''precincts_total'' (JInt 0),
      precincts_reporting = field_or unit ''precincts_reporting'' (JInt 0),
      counties = JObj []\<rparr>"

definition expected_records :: "env \<Rightarrow> json \<Rightarrow> InputRecord list" where
  "expected_records E doc =
     concat (map (\<lambda>race. map (expected_record E race)
                           (elements (field_or race ''reporting_units'' (JArr []))))
                 (elements (field_or doc ''races'' (JArr []))))"

text \<open>
  The expected shape: objects holding arrays of objects, every race with an update time
  that parses, every candidate with its count.
\<close>

definition well_shaped_unit :: "json \<Rightarrow> bool" where
  "well_shaped_unit unit =
     (is_object unit \<and> is_array (field_or unit ''candidates'' (JArr [])) \<and>
      list_all (\<lambda>c. is_object c \<and> count_of c \<noteq> None)
        (elements (field_or unit ''candidates'' (JArr []))))"

definition well_shaped_race :: "env \<Rightarrow> json \<Rightarrow> bool" where
  "well_shaped_race E race =
     (is_object race \<and> race_time E race \<noteq> None \<and>
      is_array (field_or race ''reporting_units'' (JArr [])) \<and>
      list_all well_shaped_unit (elements (field_or race ''reporting_units'' (JArr []))))"

definition well_shaped :: "env \<Rightarrow> json \<Rightarrow> bool" where
  "well_shaped E doc =
     (is_object doc \<and> is_array (field_or doc ''races'' (JArr [])) \<and>
      list_all (well_shaped_race E) (elements (field_or doc ''races'' (JArr []))))"

text \<open>The reporting units of a document, one for each time a race lists one.\<close>

definition unit_occurrences :: "json \<Rightarrow> json list" where
  "unit_occurrences doc =
     concat (map (\<lambda>race. elements (field_or race ''reporting_units'' (JArr [])))
                 (elements (field_or doc ''races'' (JArr []))))"

section \<open>A history of two revisions\<close>

text \<open>
  The example of the specification: two revisions of the tracked file, each with one
  race for Nevada, the newer revision listed first as \<^verbatim>\<open>git log\<close> does.
\<close>

definition example_unit :: "int \<Rightarrow> int \<Rightarrow> json" where
  "example_unit x y =
     JObj [(''name'', JStr ''Nevada''), (''state_abb'', JStr ''NV''),
           (''candidates'',
              JArr [JObj [(''nyt_id'', JStr ''X''), (''votes'', JObj [(''total'', JInt x)])],
                    JObj [(''nyt_id'', JStr ''Y''), (''votes'', JObj [(''total'', JInt y)])]]),
           (''total_votes'', JInt (x + y))]"

definition example_race :: "string \<Rightarrow> json list \<Rightarrow> json" where
  "example_race t units =
     JObj [(''updated_at'', JStr t), (''electoral_votes'', JInt 6),
           (''reporting_units'', JArr units)]"

definition example_doc1 :: json where
  "example_doc1 =
     JObj [(''races'', JArr [example_race ''2020-11-04T10:00:00Z'' [example_unit 100 80]])]"

definition example_doc2 :: json where
  "example_doc2 =
     JObj [(''races'', JArr [example_race ''2020-11-04T11:00:00Z'' [example_unit 150 90]])]"

definition example_fromisoformat :: "string \<Rightarrow> error + datetime" where
  "example_fromisoformat s =
     (if s = ''2020-11-04T10:00:00+00:00'' then Inr (Datetime 36000 (Some 0))
      else if s = ''2020-11-04T11:00:00+00:00'' then Inr (Datetime 39600 (Some 0))
      else Inl ValueError)"

definition example_isoformat :: "datetime \<Rightarrow> string" where
  "example_isoformat d =
     (if d = Datetime 36000 (Some 0) then ''2020-11-04T10:00:00+00:00''
      else if d = Datetime 39600 (Some 0) then ''2020-11-04T11:00:00+00:00''
      else ''0001-01-01T00:00:00'')"

definition example_env :: env where
  "example_env =
     \<lparr>git_log = (\<lambda>path. if path = ''results.json'' then Inr [''bb22'', ''aa11'']
                          else Inl CalledProcessError),
      git_Repo = Inr (),
      git_show = (\<lambda>ref name.
                    if name = ''results.json'' \<and> ref = ''aa11'' then Inr ''blob1''
                    else if name = ''results.json'' \<and> ref = ''bb22'' then Inr ''blob2''
                    else Inl KeyError),
      simdjson_parse = (\<lambda>blob. if blob = ''blob1'' then Inr example_doc1
                                else if blob = ''blob2'' then Inr example_doc2
                                else Inl ValueError),
      fromisoformat = Some example_fromisoformat,
      strptime = (\<lambda>s. Inl ValueError),
      isoformat = example_isoformat\<rparr>"

text \<open>
  A document with three races: the second one lists no reporting unit, the third one
  lists the unit of the first one again.
\<close>

definition example_empty_race :: "(string \<times> json) list" where
  "example_empty_race = [(''updated_at'', JStr ''2020-11-04T11:00:00Z'')]"

definition example_doc3 :: json where
  "example_doc3 =
     JObj [(''races'',
              JArr [example_race ''2020-11-04T10:00:00Z'' [example_unit 100 80],
                    JObj example_empty_race,
                    example_race ''2020-11-04T11:00:00Z'' [example_unit 100 80]])]"

text \<open>A document whose only race lists no reporting unit and carries no update time.\<close>

definition example_doc_no_time :: json where
  "example_doc_no_time = JObj [(''races'', JArr [JObj [(''reporting_units'', JArr [])]])]"

text \<open>A document whose second candidate carries no count.\<close>

definition example_doc_no_count :: json where
  "example_doc_no_count =
     JObj [(''races'',
              JArr [JObj [(''updated_at'', JStr ''2020-11-04T10:00:00Z''),
                          (''reporting_units'',
                             JArr [JObj [(''name'', JStr ''Nevada''),
                                         (''candidates'',
                                            JArr [JObj [(''nyt_id'', JStr ''X''),
                                                        (''votes'', JObj [(''total'', JInt 100)])],
                                                  JObj [(''nyt_id'', JStr ''Y'')]])]])]])]"

text \<open>The record the normalizer makes of \<open>example_unit x y\<close> in a race updated at \<open>t\<close>.\<close>

definition example_record :: "int \<Rightarrow> int \<Rightarrow> int \<Rightarrow> InputRecord" where
  "example_record t x y =
     \<lparr>timestamp = TsDatetime (Datetime t (Some 0)),
      state_name = JStr ''Nevada'', state_abbrev = JStr ''NV'',
      electoral_votes = JInt 6,
      candidates =
        JArr [JObj [(''last_name'', JStr ''X''), (''votes'', JInt x)],
              JObj [(''last_name'', JStr ''Y''), (''votes'', JInt y)]],
      votes = JInt (x + y), expected_votes = JInt 0, precincts_total = JInt 0,
      precincts_reporting = JInt 0, counties = JObj []\<rparr>"

text \<open>
  The same history where the older revision cannot be read, where its content does not
  parse, where the revisions cannot be listed, and where the repository cannot be opened.
\<close>

definition example_env_unreadable :: env where
  "example_env_unreadable =
     example_env\<lparr>git_show := (\<lambda>ref name. if ref = ''aa11'' then Inl KeyError
                                          else git_show example_env ref name)\<rparr>"

definition example_env_unparseable :: env where
  "example_env_unparseable =
     example_env\<lparr>simdjson_parse := (\<lambda>blob. if blob = ''blob1'' then Inl ValueError
                                           else simdjson_parse example_env blob)\<rparr>"

definition example_env_no_history :: env where
  "example_env_no_history = example_env\<lparr>git_log := (\<lambda>path. Inl CalledProcessError)\<rparr>"

definition example_env_no_repository :: env where
  "example_env_no_repository = example_env\<lparr>git_Repo := Inl InvalidGitRepositoryError\<rparr>"

text \<open>
  Cache directories for the older revision: a file that does not parse, an entry of
  the previous version, and an entry of the current version whose only row has one key.
\<close>

definition example_fs_corrupt :: filesystem where
  "example_fs_corrupt = [cache_path ''aa11'' \<mapsto> Unparseable]"

definition example_stale_entry :: "(string \<times> json) list" where
  "example_stale_entry = [(''version'', JInt 1), (''rows'', JArr [])]"

definition example_fs_stale :: filesystem where
  "example_fs_stale = [cache_path ''aa11'' \<mapsto> Parsed (JObj example_stale_entry)]"

definition example_malformed_row :: "(string \<times> json) list" where
  "example_malformed_row = [(''state_name'', JStr ''Nevada'')]"

definition example_malformed_entry :: "(string \<times> json) list" where
  "example_malformed_entry =
     [(''version'', JInt 2), (''rows'', JArr [JObj example_malformed_row])]"

definition example_fs_malformed :: filesystem where
  "example_fs_malformed = [cache_path ''aa11'' \<mapsto> Parsed (JObj example_malformed_entry)]"

section \<open>Revisions the cache cannot serve\<close>

text \<open>
  The revision has no entry to read rows from: none at all, or one whose version is not
  the current one. An unparseable file and a parsed value that is not a dict are neither.
\<close>

definition misses :: "filesystem \<Rightarrow> string \<Rightarrow> bool" where
  "misses fs ref =
     (case fs (cache_path ref) of
        None \<Rightarrow> True
      | Some Unparseable \<Rightarrow> False
      | Some (Parsed record) \<Rightarrow>
          (case py_get record ''version'' JNull of
             Inl e \<Rightarrow> False
           | Inr v \<Rightarrow> v \<noteq> JInt CACHE_VERSION))"

section \<open>The aggregated sequence and the grouped series\<close>

text \<open>
  The number a row is sorted by: the instant of its sort key (0 where the key cannot
  be computed, in which case the sort raises).
\<close>

definition sort_instant :: "env \<Rightarrow> InputRecord \<Rightarrow> int" where
  "sort_instant E row = (case sort_key_of E row of Inr d \<Rightarrow> instant d | Inl e \<Rightarrow> 0)"

text \<open>
  The invariant of the grouping loop: the hashed keys are distinct, no group is empty,
  and each group is shown under a key that hashes to its hashed key.
\<close>

definition grouped_ok :: "grouped \<Rightarrow> bool" where
  "grouped_ok g = (distinct (map fst g) \<and> (\<forall>(h, k, rows) \<in> set g. rows \<noteq> [] \<and> hash_key k = Inr h))"

text \<open>A record of another state, for an example with two groups.\<close>

definition example_record_arizona :: InputRecord where
  "example_record_arizona = (example_record 39600 7 5)\<lparr>state_name := JStr ''Arizona''\<rparr>"

text \<open>The cache directory after a first run on the example history, from an empty one.\<close>

definition example_fs_after :: filesystem where
  "example_fs_after =
     write_cache example_env
       (write_cache example_env Map.empty ''bb22'' [example_record 39600 150 90])
       ''aa11'' [example_record 36000 100 80]"

section \<open>The loops as maps\<close>

lemma mapE_map: "(\<And>x. x \<in> set xs \<Longrightarrow> f x = Inr (g x)) \<Longrightarrow> mapE f xs = Inr (map g xs)"
  by (induction xs) auto

lemma mapE_names:
  assumes "mapE f xs = Inr ys" and "\<And>x y. f x = Inr y \<Longrightarrow> g y = h x"
  shows "map g ys = map h xs"
  using assms(1)
  by (induction xs arbitrary: ys) (auto split: sum.splits simp: assms(2))

lemma mapE_concat_names:
  assumes "mapE f xs = Inr yss" and "\<And>x ys. f x = Inr ys \<Longrightarrow> map g ys = h x"
  shows "map g (concat yss) = concat (map h xs)"
  using assms(1)
  by (induction xs arbitrary: yss) (auto split: sum.splits simp: assms(2))

lemma units_loop_mapE:
  "units_loop race t units records =
     (case mapE (unit_record race t) units of
        Inl e \<Rightarrow> Inl e
      | Inr rs \<Rightarrow> Inr (records @ rs))"
  by (induction units arbitrary: records) (auto split: sum.splits)

lemma race_body_acc:
  "race_body E race records =
     (case race_body E race [] of Inl e \<Rightarrow> Inl e | Inr rs \<Rightarrow> Inr (records @ rs))"
  unfolding race_body_def
  by (auto simp: units_loop_mapE split: json.splits sum.splits)

lemma races_loop_mapE:
  "races_loop E races records =
     (case mapE (\<lambda>r. race_body E r []) races of
        Inl e \<Rightarrow> Inl e
      | Inr rss \<Rightarrow> Inr (records @ concat rss))"
proof (induction races arbitrary: records)
  case Nil
  show ?case by simp
next
  case (Cons race races)
  show ?case
    using race_body_acc [of E race records]
    by (auto simp: Cons.IH split: sum.splits)
qed

lemma races_loop_append:
  "races_loop E (xs @ ys) records =
     (case races_loop E xs records of
        Inl e \<Rightarrow> Inl e
      | Inr records' \<Rightarrow> races_loop E ys records')"
  by (induction xs arbitrary: records) (auto split: sum.splits)

section \<open>The normalizer on documents of the expected shape\<close>

lemma candidate_entry_expected:
  "is_object c \<Longrightarrow> count_of c \<noteq> None \<Longrightarrow> candidate_entry c = Inr (expected_entry c)"
  by (cases c)
    (auto simp: candidate_entry_def expected_entry_def count_of_def
          split: sum.splits option.splits)

lemma unit_record_expected:
  assumes "well_shaped_unit unit" and "race_time E (JObj r) = Some t"
  shows "unit_record r t unit = Inr (expected_record E (JObj r) unit)"
proof -
  from assms(1) obtain u where u: "unit = JObj u"
    by (cases unit) (auto simp: well_shaped_unit_def)
  from assms(1) obtain cl where cl: "dict_get u ''candidates'' (JArr []) = JArr cl"
    unfolding well_shaped_unit_def u by (cases "dict_get u ''candidates'' (JArr [])") auto
  from assms(1) have "\<And>c. c \<in> set cl \<Longrightarrow> candidate_entry c = Inr (expected_entry c)"
    unfolding well_shaped_unit_def u
    by (auto simp: cl elements_def list_all_iff candidate_entry_expected)
  then have "mapE candidate_entry cl = Inr (map expected_entry cl)"
    by (rule mapE_map)
  then show ?thesis
    by (simp add: unit_record_def expected_record_def u cl elements_def assms(2))
qed

lemma race_body_expected:
  assumes "well_shaped_race E race"
  shows "race_body E race [] =
         Inr (map (expected_record E race)
                (elements (field_or race ''reporting_units'' (JArr []))))"
proof -
  from assms obtain r where r: "race = JObj r"
    by (cases race) (auto simp: well_shaped_race_def)
  from assms obtain t where t: "race_time E (JObj r) = Some t"
    by (auto simp: well_shaped_race_def r)
  from assms obtain us where us: "dict_get r ''reporting_units'' (JArr []) = JArr us"
    unfolding well_shaped_race_def r
    by (cases "dict_get r ''reporting_units'' (JArr [])") auto
  from assms
  have "\<And>u. u \<in> set us \<Longrightarrow> unit_record r t u = Inr (expected_record E (JObj r) u)"
    unfolding well_shaped_race_def r
    by (auto simp: us elements_def list_all_iff unit_record_expected [OF _ t])
  then have "mapE (unit_record r t) us = Inr (map (expected_record E (JObj r)) us)"
    by (rule mapE_map)
  with t show ?thesis
    by (auto simp: race_body_def r us elements_def units_loop_mapE race_time_def
             split: json.splits sum.splits)
qed

text \<open>
  Claim C3, as stated, fails: a candidate without a reported count is not given the
  count 0. The normalizer reads the count with \<^verbatim>\<open>c["votes"]["total"]\<close>, which
  raises \<^verbatim>\<open>KeyError\<close>, and the whole document is rejected.
\<close>

theorem missing_count_raises_KeyError:
  "process_json_data example_env example_doc_no_count = Inl KeyError"
  by code_simp

text \<open>
  Claim C3, amended: for every raw document of the expected shape (an object whose
  races, reporting units and candidates are arrays of objects, every race with an update
  time that parses, every candidate with its count) the normalizer emits one record for
  each reporting unit of each race, in document order. A missing weight, total, expected
  total, units total or units reporting is 0, a missing name or code is the string
  \<open>Unknown\<close>, a missing candidate identifier is the empty string, and the entries keep
  the order of the candidate list. The count of a candidate has no default.
\<close>

theorem normalizer_emits_expected_records:
  assumes "well_shaped E doc"
  shows "process_json_data E doc = Inr (expected_records E doc)"
proof -
  from assms obtain d where d: "doc = JObj d"
    by (cases doc) (auto simp: well_shaped_def)
  from assms obtain rs where rs: "dict_get d ''races'' (JArr []) = JArr rs"
    unfolding well_shaped_def d by (cases "dict_get d ''races'' (JArr [])") auto
  from assms have "\<And>race. race \<in> set rs \<Longrightarrow> race_body E race [] =
      Inr (map (expected_record E race)
             (elements (field_or race ''reporting_units'' (JArr []))))"
    unfolding well_shaped_def d
    by (auto simp: rs elements_def list_all_iff race_body_expected)
  then have "mapE (\<lambda>race. race_body E race []) rs =
      Inr (map (\<lambda>race. map (expected_record E race)
                 (elements (field_or race ''reporting_units'' (JArr [])))) rs)"
    by (rule mapE_map)
  then show ?thesis
    by (simp add: process_json_data_def expected_records_def d rs elements_def
          races_loop_mapE)
qed

theorem normalizer_emits_expected_records_witness:
  "well_shaped example_env example_doc1 \<and>
   process_json_data example_env example_doc1 =
     Inr [\<lparr>timestamp = TsDatetime (Datetime 36000 (Some 0)),
           state_name = JStr ''Nevada'', state_abbrev = JStr ''NV'',
           electoral_votes = JInt 6,
           candidates =
             JArr [JObj [(''last_name'', JStr ''X''), (''votes'', JInt 100)],
                   JObj [(''last_name'', JStr ''Y''), (''votes'', JInt 80)]],
           votes = JInt 180, expected_votes = JInt 0, precincts_total = JInt 0,
           precincts_reporting = JInt 0, counties = JObj []\<rparr>]"
proof -
  have ws: "well_shaped example_env example_doc1"
    by code_simp
  have ex: "expected_records example_env example_doc1 =
     [\<lparr>timestamp = TsDatetime (Datetime 36000 (Some 0)),
           state_name = JStr ''Nevada'', state_abbrev = JStr ''NV'',
           electoral_votes = JInt 6,
           candidates =
             JArr [JObj [(''last_name'', JStr ''X''), (''votes'', JInt 100)],
                   JObj [(''last_name'', JStr ''Y''), (''votes'', JInt 80)]],
           votes = JInt 180, expected_votes = JInt 0, precincts_total = JInt 0,
           precincts_reporting = JInt 0, counties = JObj []\<rparr>]"
    by code_simp
  from normalizer_emits_expected_records [OF ws] ex ws show ?thesis by simp
qed

section \<open>Races without reporting units, units listed twice\<close>

lemma unit_record_name:
  "unit_record r t u = Inr rec \<Longrightarrow> state_name rec = field_or u ''name'' (JStr ''Unknown'')"
  by (cases u) (auto simp: unit_record_def split: sum.splits)

lemma race_body_names:
  assumes "race_body E race [] = Inr rs"
  shows "map state_name rs =
         map (\<lambda>u. field_or u ''name'' (JStr ''Unknown''))
           (elements (field_or race ''reporting_units'' (JArr [])))"
proof -
  from assms obtain r s t units where r: "race = JObj r"
    and units: "py_iter (dict_get r ''reporting_units'' (JArr [])) = Inr units"
    and m: "mapE (unit_record r t) units = Inr rs"
    by (auto simp: race_body_def units_loop_mapE split: json.splits sum.splits)
  from m have "map state_name rs = map (\<lambda>u. field_or u ''name'' (JStr ''Unknown'')) units"
    by (rule mapE_names) (rule unit_record_name)
  then show ?thesis by (simp add: r units elements_def)
qed

lemma process_json_data_names:
  assumes "process_json_data E doc = Inr recs"
  shows "map state_name recs =
         map (\<lambda>u. field_or u ''name'' (JStr ''Unknown'')) (unit_occurrences doc)"
proof -
  from assms obtain d races rss where d: "doc = JObj d"
    and races: "py_iter (dict_get d ''races'' (JArr [])) = Inr races"
    and m: "mapE (\<lambda>race. race_body E race []) races = Inr rss"
    and recs: "recs = concat rss"
    by (cases doc) (auto simp: process_json_data_def races_loop_mapE split: sum.splits)
  from m have "map state_name (concat rss) =
      concat (map (\<lambda>race. map (\<lambda>u. field_or u ''name'' (JStr ''Unknown''))
                (elements (field_or race ''reporting_units'' (JArr [])))) races)"
    by (rule mapE_concat_names) (rule race_body_names)
  then show ?thesis
    by (simp add: recs unit_occurrences_def d races elements_def map_concat comp_def)
qed

lemma race_body_no_units:
  assumes "race_time E (JObj r) \<noteq> None"
    and "dict_get r ''reporting_units'' (JArr []) = JArr []"
  shows "race_body E (JObj r) records = Inr records"
  using assms
  by (auto simp: race_body_def race_time_def split: json.splits sum.splits)

text \<open>
  Claim C9, as stated, fails: line 54 reads and parses the update time of a race before
  the loop over its reporting units, so a race that lists no unit and carries no update
  time is an error, not a race that contributes nothing.
\<close>

theorem race_without_units_and_time_raises:
  "process_json_data example_env example_doc_no_time = Inl AttributeError"
  by code_simp

text \<open>
  Claim C9, amended: a document without races yields no record and no error; a race
  that lists no reporting unit and carries an update time that parses can be taken out
  of the document without changing what the normalizer returns, so it adds no record
  and no error; and nothing is deduplicated: when the normalizer returns, the group
  keys of its records are, in order, the names of the reporting units as often as the
  races list them, so a unit listed by two races gives two records with one group key.
\<close>

theorem no_units_no_records_and_no_dedup:
  "(dict_get d ''races'' (JArr []) = JArr [] \<longrightarrow> process_json_data E (JObj d) = Inr []) \<and>
   (dict_get d ''races'' (JArr []) = JArr (pre @ JObj r # post) \<and>
    dict_get d' ''races'' (JArr []) = JArr (pre @ post) \<and>
    race_time E (JObj r) \<noteq> None \<and>
    dict_get r ''reporting_units'' (JArr []) = JArr [] \<longrightarrow>
      process_json_data E (JObj d) = process_json_data E (JObj d')) \<and>
   (process_json_data E doc = Inr recs \<longrightarrow>
      map state_name recs =
      map (\<lambda>u. field_or u ''name'' (JStr ''Unknown'')) (unit_occurrences doc))"
proof (intro conjI impI)
  assume "dict_get d ''races'' (JArr []) = JArr []"
  then show "process_json_data E (JObj d) = Inr []"
    by (simp add: process_json_data_def)
next
  assume a: "dict_get d ''races'' (JArr []) = JArr (pre @ JObj r # post) \<and>
    dict_get d' ''races'' (JArr []) = JArr (pre @ post) \<and>
    race_time E (JObj r) \<noteq> None \<and>
    dict_get r ''reporting_units'' (JArr []) = JArr []"
  then have "\<And>records. race_body E (JObj r) records = Inr records"
    by (simp add: race_body_no_units)
  with a show "process_json_data E (JObj d) = process_json_data E (JObj d')"
    by (simp add: process_json_data_def races_loop_append split: sum.splits)
next
  assume "process_json_data E doc = Inr recs"
  then show "map state_name recs =
      map (\<lambda>u. field_or u ''name'' (JStr ''Unknown'')) (unit_occurrences doc)"
    by (rule process_json_data_names)
qed

theorem no_units_no_records_and_no_dedup_witness:
  "process_json_data example_env (JObj []) = Inr [] \<and>
   process_json_data example_env example_doc3 =
     process_json_data example_env
       (JObj [(''races'',
               JArr [example_race ''2020-11-04T10:00:00Z'' [example_unit 100 80],
                     example_race ''2020-11-04T11:00:00Z'' [example_unit 100 80]])]) \<and>
   (\<exists>recs. process_json_data example_env example_doc3 = Inr recs \<and>
      map state_name recs = [JStr ''Nevada'', JStr ''Nevada''])"
proof -
  let ?a = "example_race ''2020-11-04T10:00:00Z'' [example_unit 100 80]"
  let ?c = "example_race ''2020-11-04T11:00:00Z'' [example_unit 100 80]"
  let ?d = "[(''races'', JArr ([?a] @ JObj example_empty_race # [?c]))]"
  let ?d' = "[(''races'', JArr ([?a] @ [?c]))]"
  have h1: "dict_get [] ''races'' (JArr []) = JArr []"
    by (simp add: dict_get_def)
  have h2: "dict_get ?d ''races'' (JArr []) = JArr ([?a] @ JObj example_empty_race # [?c])"
    "dict_get ?d' ''races'' (JArr []) = JArr ([?a] @ [?c])"
    by (simp_all add: dict_get_def)
  have h3: "race_time example_env (JObj example_empty_race) \<noteq> None"
    by code_simp
  have h4: "dict_get example_empty_race ''reporting_units'' (JArr []) = JArr []"
    by code_simp
  obtain recs where recs: "process_json_data example_env example_doc3 = Inr recs"
    and n: "unit_occurrences example_doc3 = [example_unit 100 80, example_unit 100 80]"
  proof -
    have "isl (process_json_data example_env example_doc3) = False"
      by code_simp
    moreover
    have "unit_occurrences example_doc3 = [example_unit 100 80, example_unit 100 80]"
      by code_simp
    ultimately show ?thesis
      using that by (cases "process_json_data example_env example_doc3") auto
  qed
  have nm: "field_or (example_unit 100 80) ''name'' (JStr ''Unknown'') = JStr ''Nevada''"
    by code_simp
  from no_units_no_records_and_no_dedup
         [where d = "?d" and E = example_env and pre = "[?a]" and r = example_empty_race
            and post = "[?c]" and d' = "?d'" and doc = example_doc3 and recs = recs]
       no_units_no_records_and_no_dedup [where d = "[]" and E = example_env]
       h1 h2 h3 h4 recs n nm
  show ?thesis
    by (simp add: example_doc3_def)
qed

section \<open>Reading and writing cache entries\<close>

lemma rows_loop_mapE:
  "rows_loop E rows out =
     (case mapE (row_record E) rows of Inl e \<Rightarrow> Inl e | Inr rs \<Rightarrow> Inr (out @ rs))"
  by (induction rows arbitrary: out) (auto split: sum.splits)

lemma read_cache_Fallthrough: "read_cache E fs ref out = Fallthrough \<longleftrightarrow> misses fs ref"
  by (auto simp: read_cache_def misses_def
           split: option.splits cache_file.splits sum.splits)

lemma read_cache_cong:
  "fs (cache_path ref) = fs' (cache_path ref') \<Longrightarrow>
   read_cache E fs ref out = read_cache E fs' ref' out"
  by (simp add: read_cache_def)

lemma cache_path_inj: "cache_path r = cache_path r' \<Longrightarrow> r = r'"
proof -
  assume "cache_path r = cache_path r'"
  then have "take 2 r = take 2 r'" and "drop 2 r = drop 2 r'"
    by (simp_all add: cache_path_def)
  then show ?thesis by (metis append_take_drop_id)
qed

lemma commits_loop_append:
  "commits_loop E (xs @ ys) out fs =
     (case commits_loop E xs out fs of
        (Inl e, fs') \<Rightarrow> (Inl e, fs')
      | (Inr out', fs') \<Rightarrow> commits_loop E ys out' fs')"
  by (induction xs arbitrary: out fs) (auto split: cache_outcome.splits sum.splits)

lemma InputRecord_kw_row_for_cache:
  "row_for_cache E r = JObj kv \<Longrightarrow> InputRecord_kw (timestamp r) kv = Inr r"
  by (cases r) (auto simp: row_for_cache_def InputRecord_kw_def InputRecord_fields_def)

lemma row_record_row_for_cache:
  assumes "timestamp r = TsDatetime d"
    and "parse_isoformat E (JStr (isoformat E d)) = Inr d"
  shows "row_record E (row_for_cache E r) = Inr r"
proof -
  obtain kv where kv: "row_for_cache E r = JObj kv"
    by (simp add: row_for_cache_def)
  then have t: "map_of kv ''timestamp'' = Some (JStr (isoformat E d))"
    using assms(1) by (auto simp: row_for_cache_def)
  from InputRecord_kw_row_for_cache [OF kv] assms show ?thesis
    by (simp add: row_record_def kv t)
qed

lemma rows_for_cache_read_back:
  assumes "\<forall>r \<in> set rows. \<exists>d. timestamp r = TsDatetime d \<and>
             parse_isoformat E (JStr (isoformat E d)) = Inr d"
  shows "mapE (row_record E) (map (row_for_cache E) rows) = Inr rows"
  using assms
proof (induction rows)
  case Nil
  show ?case by simp
next
  case (Cons r rows)
  then obtain d where "timestamp r = TsDatetime d"
    "parse_isoformat E (JStr (isoformat E d)) = Inr d" by auto
  then have "row_record E (row_for_cache E r) = Inr r"
    by (rule row_record_row_for_cache)
  with Cons show ?case by simp
qed

lemma read_after_write:
  assumes "\<forall>r \<in> set rows. \<exists>d. timestamp r = TsDatetime d \<and>
             parse_isoformat E (JStr (isoformat E d)) = Inr d"
  shows "read_cache E (write_cache E fs ref rows) ref out = Served (out @ rows)"
  using rows_for_cache_read_back [OF assms]
  by (simp add: read_cache_def write_cache_def cache_entry_def dict_get_def rows_loop_mapE)

lemma example_roundtrip:
  "parse_isoformat example_env (JStr (isoformat example_env (Datetime 36000 (Some 0)))) =
     Inr (Datetime 36000 (Some 0))"
  "parse_isoformat example_env (JStr (isoformat example_env (Datetime 39600 (Some 0)))) =
     Inr (Datetime 39600 (Some 0))"
  by code_simp+

text \<open>
  Claim C5: for every list of records whose timestamps are \<^verbatim>\<open>datetime\<close> values
  that the text form gives back (\<^verbatim>\<open>parse_isoformat\<close> of \<^verbatim>\<open>isoformat\<close>), and every
  revision identifier, reading the cache entry of the revision just after it was written
  (lines 111 to 117, then lines 91 to 103, the expected version unchanged) serves
  exactly the records written, appended to the records collected so far.
\<close>

theorem cache_get_after_put:
  assumes "\<forall>r \<in> set rows. \<exists>d. timestamp r = TsDatetime d \<and>
             parse_isoformat E (JStr (isoformat E d)) = Inr d"
  shows "read_cache E (write_cache E fs ref rows) ref out = Served (out @ rows)"
  using assms by (rule read_after_write)

theorem cache_get_after_put_witness:
  "read_cache example_env
     (write_cache example_env Map.empty ''aa11'' [example_record 36000 100 80]) ''aa11'' [] =
   Served [example_record 36000 100 80]"
proof -
  have "\<forall>r \<in> set [example_record 36000 100 80]. \<exists>d. timestamp r = TsDatetime d \<and>
          parse_isoformat example_env (JStr (isoformat example_env d)) = Inr d"
    by (simp add: example_record_def example_roundtrip)
  from cache_get_after_put [OF this, of Map.empty "''aa11''" "[]"]
  show ?thesis by simp
qed

text \<open>
  Claim C6: a cache entry whose version is not the current one (the previous one, or
  none) is treated as if the revision had no entry. Reading it falls through to the
  fetch, as reading no entry does; the loop gives the same result from the file system
  with the entry and from the one without it; and when the fetch and the normalizer
  return rows, these are appended and the entry is overwritten with one that holds
  them and carries the current version.
\<close>

theorem version_mismatch_is_a_miss:
  assumes "fs (cache_path ref) = Some (Parsed (JObj entry))"
    and "dict_get entry ''version'' JNull \<noteq> JInt CACHE_VERSION"
  shows "read_cache E fs ref out = Fallthrough \<and>
         read_cache E (fs(cache_path ref := None)) ref out = Fallthrough \<and>
         fst (commits_loop E (ref # commits) out fs) =
           fst (commits_loop E (ref # commits) out (fs(cache_path ref := None))) \<and>
         (\<forall>rows. fetch_rows E ref = Inr rows \<longrightarrow>
            commits_loop E (ref # commits) out fs =
              commits_loop E commits (out @ rows)
                (fs(cache_path ref \<mapsto> Parsed (cache_entry E rows))) \<and>
            py_get (cache_entry E rows) ''version'' JNull = Inr (JInt CACHE_VERSION))"
proof -
  have a: "read_cache E fs ref out = Fallthrough"
    using assms by (simp add: read_cache_def)
  have b: "read_cache E (fs(cache_path ref := None)) ref out = Fallthrough"
    by (simp add: read_cache_def)
  show ?thesis
    by (cases "fetch_rows E ref")
      (simp_all add: a b write_cache_def cache_entry_def dict_get_def)
qed

theorem version_mismatch_is_a_miss_witness:
  "read_cache example_env example_fs_stale ''aa11'' [] = Fallthrough \<and>
   commits_loop example_env [''aa11''] [] example_fs_stale =
     (Inr [example_record 36000 100 80],
      example_fs_stale(cache_path ''aa11'' \<mapsto>
        Parsed (cache_entry example_env [example_record 36000 100 80]))) \<and>
   py_get (cache_entry example_env [example_record 36000 100 80]) ''version'' JNull =
     Inr (JInt 2)"
proof -
  have h1: "example_fs_stale (cache_path ''aa11'') = Some (Parsed (JObj example_stale_entry))"
    by (simp add: example_fs_stale_def)
  have h2: "dict_get example_stale_entry ''version'' JNull \<noteq> JInt CACHE_VERSION"
    by (simp add: example_stale_entry_def dict_get_def CACHE_VERSION_def)
  have h3: "fetch_rows example_env ''aa11'' = Inr [example_record 36000 100 80]"
    by code_simp
  note th = version_mismatch_is_a_miss
         [where fs = example_fs_stale and ref = "''aa11''" and E = example_env
            and entry = example_stale_entry and commits = "[]" and out = "[]", OF h1 h2]
  from th have a: "read_cache example_env example_fs_stale ''aa11'' [] = Fallthrough"
    by (rule conjunct1)
  from th h3
  have b: "commits_loop example_env [''aa11''] [] example_fs_stale =
             commits_loop example_env [] ([] @ [example_record 36000 100 80])
               (example_fs_stale(cache_path ''aa11'' \<mapsto>
                  Parsed (cache_entry example_env [example_record 36000 100 80])))"
    and c: "py_get (cache_entry example_env [example_record 36000 100 80]) ''version'' JNull =
             Inr (JInt CACHE_VERSION)"
    by blast+
  show ?thesis
    unfolding b using a c by (simp add: CACHE_VERSION_def)
qed

section \<open>Rows of an entry that are not records\<close>

lemma mapE_Inl: "x \<in> set xs \<Longrightarrow> f x = Inl e \<Longrightarrow> \<exists>e'. mapE f xs = Inl e'"
  by (induction xs) (auto split: sum.splits)

lemma map_of_key: "map_of kv k \<noteq> None \<Longrightarrow> k \<in> set (map fst kv)"
  by (simp add: map_of_eq_None_iff)

lemma InputRecord_kw_keys:
  assumes "InputRecord_kw ts kv = Inr r" and "map_of kv ''timestamp'' \<noteq> None"
  shows "set (map fst kv) = set InputRecord_fields"
proof -
  from assms(1) have all: "\<forall>k \<in> set (map fst kv). k \<in> set InputRecord_fields"
    by (auto simp: InputRecord_kw_def list_all_iff split: option.splits if_splits)
  from assms(1) have
    "map_of kv ''state_name'' \<noteq> None" "map_of kv ''state_abbrev'' \<noteq> None"
    "map_of kv ''electoral_votes'' \<noteq> None" "map_of kv ''candidates'' \<noteq> None"
    "map_of kv ''votes'' \<noteq> None" "map_of kv ''expected_votes'' \<noteq> None"
    "map_of kv ''precincts_total'' \<noteq> None" "map_of kv ''precincts_reporting'' \<noteq> None"
    "map_of kv ''counties'' \<noteq> None"
    by (auto simp: InputRecord_kw_def split: option.splits Option.bind_splits)
  note mem = this [THEN map_of_key] assms(2) [THEN map_of_key]
  have "\<forall>k \<in> set InputRecord_fields. k \<in> set (map fst kv)"
    unfolding InputRecord_fields_def using mem by (simp del: set_map)
  with all show ?thesis by blast
qed

lemma row_record_malformed:
  assumes "map_of row ''timestamp'' = None \<or> set (map fst row) \<noteq> set InputRecord_fields"
  shows "\<exists>e. row_record E (JObj row) = Inl e"
proof (cases "map_of row ''timestamp''")
  case None
  then show ?thesis by (simp add: row_record_def)
next
  case (Some t)
  with assms have ne: "set (map fst row) \<noteq> set InputRecord_fields" by simp
  have "\<exists>e. InputRecord_kw ts row = Inl e" for ts
  proof (cases "InputRecord_kw ts row")
    case (Inl e)
    then show ?thesis by simp
  next
    case (Inr r)
    from InputRecord_kw_keys [OF Inr] Some ne show ?thesis by simp
  qed
  then show ?thesis
    by (cases t; cases "parse_isoformat E t") (auto simp: row_record_def Some)
qed

lemma loop_raises:
  assumes "ref \<in> set commits" and "\<And>out. \<exists>e. read_cache E fs ref out = Raised e"
  shows "\<exists>e fs'. commits_loop E commits out fs = (Inl e, fs') \<and>
           fs' (cache_path ref) = fs (cache_path ref)"
  using assms
proof (induction commits arbitrary: out fs)
  case Nil
  then show ?case by simp
next
  case (Cons c cs)
  show ?case
  proof (cases "c = ref")
    case True
    from Cons.prems(2) [of out] obtain e where "read_cache E fs ref out = Raised e" ..
    with True show ?thesis by simp
  next
    case False
    with Cons.prems(1) have mem: "ref \<in> set cs" by simp
    from False have ne: "cache_path c \<noteq> cache_path ref"
      using cache_path_inj by blast
    have keep: "\<exists>e. read_cache E (write_cache E fs c rows) ref out' = Raised e"
      for rows out'
    proof -
      have "read_cache E (write_cache E fs c rows) ref out' = read_cache E fs ref out'"
        by (rule read_cache_cong) (use ne in \<open>simp add: write_cache_def\<close>)
      with Cons.prems(2) [of out'] show ?thesis
        by simp
    qed
    show ?thesis
    proof (cases "read_cache E fs c out")
      case (Served out')
      with Cons.IH [OF mem Cons.prems(2), of out'] show ?thesis by simp
    next
      case Skipped
      with Cons.IH [OF mem Cons.prems(2), of out] show ?thesis by simp
    next
      case (Raised e)
      then show ?thesis by simp
    next
      case Fallthrough
      show ?thesis
      proof (cases "fetch_rows E c")
        case (Inl e)
        with Fallthrough show ?thesis by simp
      next
        case (Inr rows)
        have "\<exists>e fs'. commits_loop E cs (out @ rows) (write_cache E fs c rows) = (Inl e, fs') \<and>
                fs' (cache_path ref) = (write_cache E fs c rows) (cache_path ref)"
          by (rule Cons.IH [OF mem keep])
        with ne Fallthrough Inr show ?thesis by (auto simp: write_cache_def)
      qed
    qed
  qed
qed

text \<open>
  Claim C10: the rows of an entry of the current version are not validated. When a
  listed revision has a cache entry that parses, carries the current version, and holds
  a row (a dict) without the key \<open>timestamp\<close> or whose keys are not exactly the fields
  of a record, reading the entry raises (it is not a miss: nothing is fetched), the
  whole run raises, and the entry stays as it was.
\<close>

theorem malformed_cached_row_aborts_run:
  assumes "git_log E ''results.json'' = Inr commits" and "ref \<in> set commits"
    and "fs (cache_path ref) = Some (Parsed (JObj entry))"
    and "dict_get entry ''version'' JNull = JInt CACHE_VERSION"
    and "dict_get entry ''rows'' (JArr []) = JArr rows"
    and "JObj row \<in> set rows"
    and "map_of row ''timestamp'' = None \<or> set (map fst row) \<noteq> set InputRecord_fields"
  shows "(\<exists>e. read_cache E fs ref out = Raised e) \<and>
         (\<exists>e fs'. fetch_all_records E fs = (Inl e, fs') \<and>
            fs' (cache_path ref) = fs (cache_path ref))"
proof -
  from row_record_malformed [OF assms(7)]
  obtain e where e: "row_record E (JObj row) = Inl e" ..
  from mapE_Inl [where f = "row_record E", OF assms(6) e]
  obtain e' where e': "mapE (row_record E) rows = Inl e'" ..
  have r: "read_cache E fs ref out' = Raised e'" for out'
    unfolding read_cache_def
    by (simp add: assms(3) assms(4) assms(5) rows_loop_mapE e')
  then have "\<exists>e. read_cache E fs ref out' = Raised e" for out'
    by simp
  from loop_raises [OF assms(2) this]
  obtain e2 fs' where l: "commits_loop E commits [] fs = (Inl e2, fs')"
    and k: "fs' (cache_path ref) = fs (cache_path ref)" by blast
  have "\<exists>e fs'. fetch_all_records E fs = (Inl e, fs') \<and>
          fs' (cache_path ref) = fs (cache_path ref)"
  proof (cases "git_Repo E")
    case (Inl e3)
    then show ?thesis
      by (simp add: fetch_all_records_def assms(1))
  next
    case (Inr repo)
    with l k show ?thesis
      by (simp add: fetch_all_records_def assms(1))
  qed
  with r show ?thesis by blast
qed

theorem malformed_cached_row_aborts_run_witness:
  "(\<exists>e. read_cache example_env example_fs_malformed ''aa11'' [] = Raised e) \<and>
   (\<exists>e fs'. fetch_all_records example_env example_fs_malformed = (Inl e, fs') \<and>
      fs' (cache_path ''aa11'') = example_fs_malformed (cache_path ''aa11''))"
proof -
  have h1: "git_log example_env ''results.json'' = Inr [''bb22'', ''aa11'']"
    by (simp add: example_env_def)
  have h2: "''aa11'' \<in> set [''bb22'', ''aa11'']"
    by simp
  have h3: "example_fs_malformed (cache_path ''aa11'') =
              Some (Parsed (JObj example_malformed_entry))"
    by (simp add: example_fs_malformed_def)
  have h4: "dict_get example_malformed_entry ''version'' JNull = JInt CACHE_VERSION"
    by (simp add: example_malformed_entry_def dict_get_def CACHE_VERSION_def)
  have h5: "dict_get example_malformed_entry ''rows'' (JArr []) =
              JArr [JObj example_malformed_row]"
    by (simp add: example_malformed_entry_def dict_get_def)
  have h6: "JObj example_malformed_row \<in> set [JObj example_malformed_row]"
    by simp
  have h7: "map_of example_malformed_row ''timestamp'' = None \<or>
            set (map fst example_malformed_row) \<noteq> set InputRecord_fields"
    by (simp add: example_malformed_row_def)
  from malformed_cached_row_aborts_run
         [where E = example_env and fs = example_fs_malformed and ref = "''aa11''"
            and out = "[]", OF h1 h2 h3 h4 h5 h6 h7]
  show ?thesis .
qed

section \<open>Revisions that cannot be fetched or parsed\<close>

text \<open>
  Claim C1, as stated, fails: nothing catches an exception of the fetch, of the parser
  or of the normalizer (lines 105 to 108). In the history of two revisions, when the
  older one cannot be read, or when its content does not parse, the run raises and
  returns no grouped series, although the newer revision was processed.
\<close>

theorem unreadable_revision_aborts_example_run:
  "fst (fetch_all_records example_env_unreadable Map.empty) = Inl KeyError \<and>
   fst (fetch_all_records example_env_unparseable Map.empty) = Inl ValueError"
  by code_simp

text \<open>
  Claim C1, amended: when the repository opens and a revision \<open>k\<close> is reached (the
  revisions listed before it were processed without an exception), is not served from
  the cache (it has no entry, or one of another version), and fails at the fetch, at the
  parser or in the normalizer, the run raises that exception and returns no grouped
  series; the cache stays as the revisions before \<open>k\<close> left it. A failure to list the
  revisions, or to open the repository, raises as well, with the cache untouched.
\<close>

theorem failing_revision_aborts_run:
  "(git_log E ''results.json'' = Inl e \<longrightarrow> fetch_all_records E fs = (Inl e, fs)) \<and>
   (git_log E ''results.json'' = Inr commits \<and> git_Repo E = Inl e \<longrightarrow>
      fetch_all_records E fs = (Inl e, fs)) \<and>
   (git_log E ''results.json'' = Inr (pre @ k # post) \<and> git_Repo E = Inr () \<and>
    commits_loop E pre [] fs = (Inr out, fs') \<and> misses fs' k \<and> fetch_rows E k = Inl e \<longrightarrow>
      fetch_all_records E fs = (Inl e, fs'))"
proof (intro conjI impI)
  assume "git_log E ''results.json'' = Inl e"
  then show "fetch_all_records E fs = (Inl e, fs)"
    by (simp add: fetch_all_records_def)
next
  assume "git_log E ''results.json'' = Inr commits \<and> git_Repo E = Inl e"
  then show "fetch_all_records E fs = (Inl e, fs)"
    by (simp add: fetch_all_records_def)
next
  assume a: "git_log E ''results.json'' = Inr (pre @ k # post) \<and> git_Repo E = Inr () \<and>
    commits_loop E pre [] fs = (Inr out, fs') \<and> misses fs' k \<and> fetch_rows E k = Inl e"
  then have "read_cache E fs' k out = Fallthrough"
    by (simp add: read_cache_Fallthrough)
  with a show "fetch_all_records E fs = (Inl e, fs')"
    by (simp add: fetch_all_records_def commits_loop_append)
qed

theorem failing_revision_aborts_run_witness:
  "fetch_all_records example_env_no_history Map.empty = (Inl CalledProcessError, Map.empty) \<and>
   fetch_all_records example_env_no_repository Map.empty =
     (Inl InvalidGitRepositoryError, Map.empty) \<and>
   fetch_all_records example_env_unreadable Map.empty =
     (Inl KeyError,
      write_cache example_env_unreadable Map.empty ''bb22'' [example_record 39600 150 90])"
proof -
  let ?fs' = "write_cache example_env_unreadable Map.empty ''bb22''
                [example_record 39600 150 90]"
  have g0: "git_log example_env_no_history ''results.json'' = Inl CalledProcessError"
    by (simp add: example_env_no_history_def)
  have g1: "git_log example_env_unreadable ''results.json'' = Inr ([''bb22''] @ ''aa11'' # [])"
    by (simp add: example_env_unreadable_def example_env_def)
  have g2: "git_log example_env_no_repository ''results.json'' = Inr [''bb22'', ''aa11'']"
    by (simp add: example_env_no_repository_def example_env_def)
  have r1: "git_Repo example_env_unreadable = Inr ()"
    by (simp add: example_env_unreadable_def example_env_def)
  have r2: "git_Repo example_env_no_repository = Inl InvalidGitRepositoryError"
    by (simp add: example_env_no_repository_def)
  have f1: "fetch_rows example_env_unreadable ''bb22'' = Inr [example_record 39600 150 90]"
    by code_simp
  have l1: "commits_loop example_env_unreadable [''bb22''] [] Map.empty =
              (Inr [example_record 39600 150 90], ?fs')"
    by (simp add: read_cache_def f1)
  have m: "misses ?fs' ''aa11''"
    by (simp add: misses_def write_cache_def cache_path_def)
  have f2: "fetch_rows example_env_unreadable ''aa11'' = Inl KeyError"
    by code_simp
  from failing_revision_aborts_run
         [where E = example_env_no_history and e = CalledProcessError and fs = Map.empty]
       failing_revision_aborts_run
         [where E = example_env_no_repository and e = InvalidGitRepositoryError
            and fs = Map.empty and commits = "[''bb22'', ''aa11'']"]
       failing_revision_aborts_run
         [where E = example_env_unreadable and e = KeyError and fs = Map.empty
            and pre = "[''bb22'']" and k = "''aa11''" and post = "[]"
            and out = "[example_record 39600 150 90]" and fs' = "?fs'"]
       g0 g1 g2 r1 r2 f1 l1 m f2
  show ?thesis by simp
qed

section \<open>An entry that does not parse\<close>

lemma unparseable_entry_skipped:
  "fs (cache_path ref) = Some Unparseable \<Longrightarrow>
   commits_loop E (ref # commits) out fs = commits_loop E commits out fs"
  by (simp add: read_cache_def)

text \<open>
  Claim C2 does not hold of the code: line 96 leaves the iteration. With the cache
  file of the older revision unparseable, the run returns the record of the newer
  revision only, and the file is still unparseable afterwards: the revision is neither
  fetched again nor written back.
\<close>

theorem corrupt_entry_skips_revision:
  "fst (fetch_all_records example_env example_fs_corrupt) =
     Inr [(JStr ''Nevada'', JStr ''Nevada'', [example_record 39600 150 90])] \<and>
   snd (fetch_all_records example_env example_fs_corrupt) (cache_path ''aa11'') =
     Some Unparseable"
  by code_simp

section \<open>Sorting by timestamp\<close>

lemma mapE_eq_map:
  "mapE f xs = Inr ys \<Longrightarrow> ys = map (\<lambda>x. case f x of Inr y \<Rightarrow> y | Inl e \<Rightarrow> d) xs"
  by (induction xs arbitrary: ys) (auto split: sum.splits)

lemma insort_key_map_pair:
  "insort_key (\<lambda>p. k (fst p)) (g x, x) (map (\<lambda>x. (g x, x)) ys) =
     map (\<lambda>x. (g x, x)) (insort_key (\<lambda>x. k (g x)) x ys)"
  by (induction ys) auto

lemma sort_key_zip:
  "map snd (sort_key (\<lambda>p. k (fst p)) (zip (map g xs) xs)) = sort_key (\<lambda>x. k (g x)) xs"
proof -
  have z: "zip (map g xs) xs = map (\<lambda>x. (g x, x)) xs"
    by (induction xs) auto
  have "sort_key (\<lambda>p. k (fst p)) (map (\<lambda>x. (g x, x)) xs) =
        map (\<lambda>x. (g x, x)) (sort_key (\<lambda>x. k (g x)) xs)"
    by (induction xs) (simp_all add: insort_key_map_pair)
  then show ?thesis by (simp add: z comp_def)
qed

lemma sort_out_sort_key:
  assumes "sort_out E out = Inr sorted_out"
  shows "sorted_out = sort_key (sort_instant E) out"
proof -
  from assms obtain keys where k: "mapE (sort_key_of E) out = Inr keys"
    and s: "sorted_out = map snd (sort_key (\<lambda>p. instant (fst p)) (zip keys out))"
    by (auto simp: sort_out_def split: sum.splits if_splits)
  let ?g = "\<lambda>x. case sort_key_of E x of Inr y \<Rightarrow> y | Inl e \<Rightarrow> Datetime 0 None"
  from k have keys: "keys = map ?g out" by (rule mapE_eq_map)
  have i: "(\<lambda>x. instant (?g x)) = sort_instant E"
    by (rule ext) (simp add: sort_instant_def instant_def split: sum.splits)
  have "sorted_out = sort_key (\<lambda>x. instant (?g x)) out"
    unfolding s keys by (rule sort_key_zip)
  also have "\<dots> = sort_key (sort_instant E) out"
    by (simp only: i)
  finally show ?thesis .
qed

text \<open>
  What line 119 does to the list the loop collected: when the sort returns, its result
  is a rearrangement of \<open>out\<close> that ascends in the timestamps' instants, and the rows
  of any one instant keep the order they have in \<open>out\<close>.
\<close>

lemma sort_out_stable:
  assumes "sort_out E out = Inr sorted_out"
  shows "mset sorted_out = mset out \<and>
         sorted (map (sort_instant E) sorted_out) \<and>
         (\<forall>t. filter (\<lambda>r. sort_instant E r = t) sorted_out =
              filter (\<lambda>r. sort_instant E r = t) out)"
proof -
  have "sorted_out = sort_key (sort_instant E) out"
    using assms by (rule sort_out_sort_key)
  then show ?thesis
    by (simp add: sort_key_stable)
qed

text \<open>
  Claim C7 does not hold of the code: the list that is sorted is not the concatenation
  of the Records of all revisions. With the cache file of the older revision
  unparseable, line 96 leaves the iteration, so the loop collects the record of the
  newer revision only and the aggregated sequence is that one record, although the
  older revision is listed and its content yields a record. The defect is the one of
  claim C2; the sort of line 119 itself is the stable sort the claim describes.
\<close>

theorem corrupt_entry_leaves_revision_out_of_sequence:
  "git_log example_env ''results.json'' = Inr [''bb22'', ''aa11''] \<and>
   fst (commits_loop example_env [''bb22'', ''aa11''] [] example_fs_corrupt) =
     Inr [example_record 39600 150 90] \<and>
   sort_out example_env [example_record 39600 150 90] = Inr [example_record 39600 150 90] \<and>
   fetch_rows example_env ''aa11'' = Inr [example_record 36000 100 80]"
  by code_simp

section \<open>Grouping by state name\<close>

lemma grouped_append_keys:
  "map fst (grouped_append g h k row) =
     (if h \<in> set (map fst g) then map fst g else map fst g @ [h])"
  by (induction g h k row rule: grouped_append.induct) auto

lemma grouped_append_rows:
  "grouped_rows (grouped_append g h k row) h' =
     (if h' = h then grouped_rows g h @ [row] else grouped_rows g h')"
  by (induction g h k row rule: grouped_append.induct) auto

lemma grouped_rows_entry:
  "distinct (map fst g) \<Longrightarrow> (h, k, rows) \<in> set g \<Longrightarrow> grouped_rows g h = rows"
  by (induction g) (auto simp: rev_image_eqI)

lemma grouped_append_ok:
  assumes "grouped_ok g" and "hash_key k = Inr h"
  shows "grouped_ok (grouped_append g h k row)"
  using assms
  by (induction g h k row rule: grouped_append.induct)
     (auto simp: grouped_ok_def grouped_append_keys split: if_splits)

lemma group_loop_inv:
  assumes "group_loop xs g = Inr g'" and "grouped_ok g"
  shows "grouped_ok g' \<and>
         (\<forall>h. grouped_rows g' h =
                grouped_rows g h @ filter (\<lambda>r. hash_key (state_name r) = Inr h) xs) \<and>
         set (map fst g') = set (map fst g) \<union> {h. \<exists>r \<in> set xs. hash_key (state_name r) = Inr h}"
  using assms
proof (induction xs arbitrary: g)
  case Nil
  then show ?case by simp
next
  case (Cons row xs)
  from Cons.prems(1) obtain h where h: "hash_key (state_name row) = Inr h"
    and l: "group_loop xs (grouped_append g h (state_name row) row) = Inr g'"
    by (auto split: sum.splits)
  have ok: "grouped_ok (grouped_append g h (state_name row) row)"
    using Cons.prems(2) h by (rule grouped_append_ok)
  from Cons.IH [OF l ok] h show ?case
    by (auto simp: grouped_append_rows grouped_append_keys)
qed

lemma group_loop_hashable:
  "group_loop xs g = Inr g' \<Longrightarrow> r \<in> set xs \<Longrightarrow> \<exists>h. hash_key (state_name r) = Inr h"
  by (induction xs arbitrary: g) (auto split: sum.splits)

text \<open>
  Claim C8: when the grouping loop (lines 120 to 124) returns, the groups have distinct
  keys, every row of the aggregated sequence has its key among them, and every group
  holds exactly the rows of the aggregated sequence whose key is the group's, in the
  order of the aggregated sequence (and is therefore not empty). So every row is in
  exactly one group, the one of its \<open>state_name\<close>.
\<close>

theorem grouping_is_a_partition:
  assumes "group_loop sorted_out [] = Inr grouped"
  shows "distinct (map fst grouped) \<and>
         (\<forall>r \<in> set sorted_out.
            \<exists>h. hash_key (state_name r) = Inr h \<and> h \<in> set (map fst grouped)) \<and>
         (\<forall>(h, k, rows) \<in> set grouped.
            rows \<noteq> [] \<and> hash_key k = Inr h \<and>
            rows = filter (\<lambda>r. hash_key (state_name r) = Inr h) sorted_out)"
proof -
  have "grouped_ok []" by (simp add: grouped_ok_def)
  from group_loop_inv [OF assms this]
  have ok: "grouped_ok grouped"
    and rows: "\<And>h. grouped_rows grouped h =
                 filter (\<lambda>r. hash_key (state_name r) = Inr h) sorted_out"
    and keys: "set (map fst grouped) =
                 {h. \<exists>r \<in> set sorted_out. hash_key (state_name r) = Inr h}"
    by auto
  from ok have d: "distinct (map fst grouped)"
    by (simp add: grouped_ok_def)
  have a: "\<exists>h. hash_key (state_name r) = Inr h \<and> h \<in> set (map fst grouped)"
    if "r \<in> set sorted_out" for r
  proof -
    from group_loop_hashable [OF assms that]
    obtain h where "hash_key (state_name r) = Inr h" ..
    with that keys show ?thesis by blast
  qed
  have b: "rows \<noteq> [] \<and> hash_key k = Inr h \<and>
           rows = filter (\<lambda>r. hash_key (state_name r) = Inr h) sorted_out"
    if "(h, k, rows) \<in> set grouped" for h k rows
  proof -
    from ok that have "rows \<noteq> []" "hash_key k = Inr h"
      by (auto simp: grouped_ok_def)
    moreover from grouped_rows_entry [OF d that] rows [of h]
    have "rows = filter (\<lambda>r. hash_key (state_name r) = Inr h) sorted_out"
      by simp
    ultimately show ?thesis by simp
  qed
  from d a b show ?thesis by blast
qed

theorem grouping_is_a_partition_witness:
  "group_loop [example_record 36000 100 80, example_record_arizona,
               example_record 39600 150 90] [] =
     Inr [(JStr ''Nevada'', JStr ''Nevada'',
           [example_record 36000 100 80, example_record 39600 150 90]),
          (JStr ''Arizona'', JStr ''Arizona'', [example_record_arizona])] \<and>
   distinct [JStr ''Nevada'', JStr ''Arizona''] \<and>
   [example_record 36000 100 80, example_record 39600 150 90] =
     filter (\<lambda>r. hash_key (state_name r) = Inr (JStr ''Nevada''))
       [example_record 36000 100 80, example_record_arizona, example_record 39600 150 90] \<and>
   [example_record_arizona] =
     filter (\<lambda>r. hash_key (state_name r) = Inr (JStr ''Arizona''))
       [example_record 36000 100 80, example_record_arizona, example_record 39600 150 90]"
proof -
  let ?out = "[example_record 36000 100 80, example_record_arizona,
               example_record 39600 150 90]"
  let ?g = "[(JStr ''Nevada'', JStr ''Nevada'',
              [example_record 36000 100 80, example_record 39600 150 90]),
             (JStr ''Arizona'', JStr ''Arizona'', [example_record_arizona])]"
  have gl: "group_loop ?out [] = Inr ?g"
    by code_simp
  note th = grouping_is_a_partition [OF gl]
  from th have d: "distinct (map fst ?g)"
    by (rule conjunct1)
  from th have b: "\<forall>(h, k, rows) \<in> set ?g.
      rows \<noteq> [] \<and> hash_key k = Inr h \<and>
      rows = filter (\<lambda>r. hash_key (state_name r) = Inr h) ?out"
    by (elim conjE)
  from b have n: "[example_record 36000 100 80, example_record 39600 150 90] =
      filter (\<lambda>r. hash_key (state_name r) = Inr (JStr ''Nevada'')) ?out"
    by (simp del: filter.simps)
  from b have a: "[example_record_arizona] =
      filter (\<lambda>r. hash_key (state_name r) = Inr (JStr ''Arizona'')) ?out"
    by (simp del: filter.simps)
  from gl d n a show ?thesis
    by (simp del: filter.simps)
qed

section \<open>Running the pipeline twice\<close>

lemma unit_record_timestamp:
  "unit_record r t u = Inr rec \<Longrightarrow> timestamp rec = TsDatetime t"
  by (cases u) (auto simp: unit_record_def split: sum.splits)

lemma mapE_mem:
  "mapE f xs = Inr ys \<Longrightarrow> y \<in> set ys \<Longrightarrow> \<exists>x \<in> set xs. f x = Inr y"
  by (induction xs arbitrary: ys) (auto split: sum.splits)

lemma race_body_timestamps:
  assumes "race_body E race [] = Inr rs" and "x \<in> set rs"
  shows "\<exists>s d. timestamp x = TsDatetime d \<and> py_fromisoformat E s = Inr d"
proof -
  from assms(1) obtain r s t units where
    t: "py_fromisoformat E s = Inr t"
    and m: "mapE (unit_record r t) units = Inr rs"
    by (auto simp: race_body_def units_loop_mapE split: json.splits sum.splits)
  from mapE_mem [OF m assms(2)] obtain u where "unit_record r t u = Inr x" by blast
  then have "timestamp x = TsDatetime t" by (rule unit_record_timestamp)
  with t show ?thesis by blast
qed

lemma process_json_data_timestamps:
  assumes "process_json_data E doc = Inr rows" and "x \<in> set rows"
  shows "\<exists>s d. timestamp x = TsDatetime d \<and> py_fromisoformat E s = Inr d"
proof -
  from assms(1) obtain races rss where
    m: "mapE (\<lambda>race. race_body E race []) races = Inr rss"
    and rows: "rows = concat rss"
    by (cases doc) (auto simp: process_json_data_def races_loop_mapE split: sum.splits)
  from assms(2) rows obtain rs where rs: "rs \<in> set rss" and x: "x \<in> set rs" by auto
  from mapE_mem [OF m rs] obtain race where "race_body E race [] = Inr rs" by blast
  from race_body_timestamps [OF this x] show ?thesis .
qed

lemma fetch_rows_timestamps:
  assumes "fetch_rows E ref = Inr rows" and "x \<in> set rows"
  shows "\<exists>s d. timestamp x = TsDatetime d \<and> py_fromisoformat E s = Inr d"
proof -
  from assms(1) obtain doc where "process_json_data E doc = Inr rows"
    by (auto simp: fetch_rows_def split: sum.splits)
  from process_json_data_timestamps [OF this assms(2)] show ?thesis .
qed

lemma read_after_fetch:
  assumes rt: "\<forall>s d. py_fromisoformat E s = Inr d \<longrightarrow>
                 parse_isoformat E (JStr (isoformat E d)) = Inr d"
    and f: "fetch_rows E ref = Inr rows"
  shows "read_cache E (write_cache E fs ref rows) ref out = Served (out @ rows)"
proof (rule read_after_write, rule ballI)
  fix r assume "r \<in> set rows"
  from fetch_rows_timestamps [OF f this] obtain s d where
    "timestamp r = TsDatetime d" "py_fromisoformat E s = Inr d" by blast
  with rt show "\<exists>d. timestamp r = TsDatetime d \<and>
                  parse_isoformat E (JStr (isoformat E d)) = Inr d" by blast
qed

lemma misses_cong: "fs (cache_path ref) = fs' (cache_path ref) \<Longrightarrow> misses fs ref = misses fs' ref"
  by (simp add: misses_def)

lemma not_misses_written: "\<not> misses (write_cache E fs ref rows) ref"
  by (simp add: misses_def write_cache_def cache_entry_def dict_get_def)

lemma writes_only_on_misses:
  assumes "commits_loop E commits out fs = (res, fs')" and "fs' p \<noteq> fs p"
  shows "\<exists>ref \<in> set commits. p = cache_path ref \<and> misses fs ref"
  using assms
proof (induction commits arbitrary: out fs)
  case Nil
  then show ?case by simp
next
  case (Cons c cs)
  show ?case
  proof (cases "read_cache E fs c out")
    case (Served out')
    with Cons.prems have "commits_loop E cs out' fs = (res, fs')" by simp
    from Cons.IH [OF this Cons.prems(2)] show ?thesis by auto
  next
    case Skipped
    with Cons.prems have "commits_loop E cs out fs = (res, fs')" by simp
    from Cons.IH [OF this Cons.prems(2)] show ?thesis by auto
  next
    case (Raised e)
    with Cons.prems show ?thesis by simp
  next
    case Fallthrough
    then have mc: "misses fs c" by (simp add: read_cache_Fallthrough)
    show ?thesis
    proof (cases "fetch_rows E c")
      case (Inl e)
      with Fallthrough Cons.prems show ?thesis by simp
    next
      case (Inr rows)
      with Fallthrough Cons.prems(1)
      have l: "commits_loop E cs (out @ rows) (write_cache E fs c rows) = (res, fs')" by simp
      show ?thesis
      proof (cases "p = cache_path c")
        case True
        with mc show ?thesis by auto
      next
        case False
        then have same: "write_cache E fs c rows p = fs p" by (simp add: write_cache_def)
        with Cons.prems(2) have "fs' p \<noteq> write_cache E fs c rows p" by simp
        from Cons.IH [OF l this] obtain ref where ref: "ref \<in> set cs" "p = cache_path ref"
          "misses (write_cache E fs c rows) ref" by blast
        from ref(2) same have "write_cache E fs c rows (cache_path ref) = fs (cache_path ref)"
          by simp
        from misses_cong [where fs = "write_cache E fs c rows" and fs' = fs and ref = ref, OF this] ref(3) have "misses fs ref" by simp
        with ref show ?thesis by auto
      qed
    qed
  qed
qed

lemma served_entry_kept:
  assumes "commits_loop E commits out fs = (res, fs')" and "\<not> misses fs ref"
  shows "fs' (cache_path ref) = fs (cache_path ref)"
proof (rule ccontr)
  assume "fs' (cache_path ref) \<noteq> fs (cache_path ref)"
  from writes_only_on_misses [OF assms(1) this]
  obtain c where "cache_path ref = cache_path c" "misses fs c" by blast
  with cache_path_inj have "misses fs ref" by blast
  with assms(2) show False by simp
qed

lemma second_loop:
  assumes rt: "\<forall>s d. py_fromisoformat E s = Inr d \<longrightarrow>
                 parse_isoformat E (JStr (isoformat E d)) = Inr d"
    and l: "commits_loop E commits out fs = (Inr out', fs1)"
  shows "commits_loop E commits out fs1 = (Inr out', fs1)"
  using l
proof (induction commits arbitrary: out fs)
  case Nil
  then show ?case by simp
next
  case (Cons c cs)
  have step: "commits_loop E (c # cs) out fs1 = (Inr out', fs1)"
    if rest: "commits_loop E cs outm fsm = (Inr out', fs1)"
      and settled: "read_cache E fsm c out = Served outm \<or>
                    read_cache E fsm c out = Skipped \<and> outm = out"
    for outm fsm
  proof -
    from settled have "read_cache E fsm c out \<noteq> Fallthrough" by auto
    then have "\<not> misses fsm c" by (simp add: read_cache_Fallthrough)
    from served_entry_kept [OF rest this]
    have "fs1 (cache_path c) = fsm (cache_path c)" .
    then have "read_cache E fs1 c out = read_cache E fsm c out"
      by (simp add: read_cache_def)
    with settled Cons.IH [OF rest] show ?thesis by auto
  qed
  show ?case
  proof (cases "read_cache E fs c out")
    case (Served outm)
    with Cons.prems have "commits_loop E cs outm fs = (Inr out', fs1)" by simp
    from step [OF this] Served show ?thesis by simp
  next
    case Skipped
    with Cons.prems have "commits_loop E cs out fs = (Inr out', fs1)" by simp
    from step [OF this] Skipped show ?thesis by simp
  next
    case (Raised e)
    with Cons.prems show ?thesis by simp
  next
    case Fallthrough
    show ?thesis
    proof (cases "fetch_rows E c")
      case (Inl e)
      with Fallthrough Cons.prems show ?thesis by simp
    next
      case (Inr rows)
      with Fallthrough Cons.prems
      have "commits_loop E cs (out @ rows) (write_cache E fs c rows) = (Inr out', fs1)" by simp
      from step [OF this] read_after_fetch [OF rt Inr] show ?thesis by simp
    qed
  qed
qed

text \<open>
  Claim C4: let the text form of every \<^verbatim>\<open>datetime\<close> the parser returns be parsed
  back to it (\<^verbatim>\<open>parse_isoformat\<close> of \<^verbatim>\<open>isoformat\<close>). When a run returns a
  grouped series, a second run on the cache directory the first one left, with the
  history unchanged, returns the same grouped series and leaves every cache file as
  it is. And the first run changed a cache file only at the path of a listed revision
  that had no entry or an entry of another version: no valid entry was altered.
\<close>

theorem second_run_is_identical:
  assumes rt: "\<forall>s d. py_fromisoformat E s = Inr d \<longrightarrow>
                 parse_isoformat E (JStr (isoformat E d)) = Inr d"
    and run: "fetch_all_records E fs = (Inr grouped, fs1)"
  shows "fetch_all_records E fs1 = (Inr grouped, fs1) \<and>
         (\<forall>p. fs1 p \<noteq> fs p \<longrightarrow>
            (\<exists>commits ref. git_log E ''results.json'' = Inr commits \<and> ref \<in> set commits \<and>
               p = cache_path ref \<and> misses fs ref))"
proof -
  from run obtain commits repo out sorted_out where
    g: "git_log E ''results.json'' = Inr commits"
    and r: "git_Repo E = Inr repo"
    and l: "commits_loop E commits [] fs = (Inr out, fs1)"
    and s: "sort_out E out = Inr sorted_out"
    and gr: "group_loop sorted_out [] = Inr grouped"
    by (auto simp: fetch_all_records_def split: sum.splits prod.splits)
  from second_loop [OF rt l] have "commits_loop E commits [] fs1 = (Inr out, fs1)" .
  then have a: "fetch_all_records E fs1 = (Inr grouped, fs1)"
    by (simp add: fetch_all_records_def g r s gr)
  have b: "\<exists>commits ref. git_log E ''results.json'' = Inr commits \<and> ref \<in> set commits \<and>
               p = cache_path ref \<and> misses fs ref" if "fs1 p \<noteq> fs p" for p
    using writes_only_on_misses [OF l that] g by blast
  from a b show ?thesis by blast
qed

theorem second_run_is_identical_witness:
  "fetch_all_records example_env Map.empty =
     (Inr [(JStr ''Nevada'', JStr ''Nevada'',
            [example_record 36000 100 80, example_record 39600 150 90])],
      example_fs_after) \<and>
   fetch_all_records example_env example_fs_after =
     (Inr [(JStr ''Nevada'', JStr ''Nevada'',
            [example_record 36000 100 80, example_record 39600 150 90])],
      example_fs_after) \<and>
   (\<exists>commits ref. git_log example_env ''results.json'' = Inr commits \<and> ref \<in> set commits \<and>
      cache_path ''aa11'' = cache_path ref \<and> misses Map.empty ref)"
proof -
  let ?g = "[(JStr ''Nevada'', JStr ''Nevada'',
              [example_record 36000 100 80, example_record 39600 150 90])]"
  have rt: "\<forall>s d. py_fromisoformat example_env s = Inr d \<longrightarrow>
              parse_isoformat example_env (JStr (isoformat example_env d)) = Inr d"
  proof (intro allI impI)
    fix s d assume "py_fromisoformat example_env s = Inr d"
    then have "d = Datetime 36000 (Some 0) \<or> d = Datetime 39600 (Some 0)"
      by (auto simp: py_fromisoformat_def example_env_def example_fromisoformat_def
               split: if_splits)
    with example_roundtrip
    show "parse_isoformat example_env (JStr (isoformat example_env d)) = Inr d"
      by auto
  qed
  have g: "git_log example_env ''results.json'' = Inr [''bb22'', ''aa11'']"
    by (simp add: example_env_def)
  have f1: "fetch_rows example_env ''bb22'' = Inr [example_record 39600 150 90]"
    by code_simp
  have f2: "fetch_rows example_env ''aa11'' = Inr [example_record 36000 100 80]"
    by code_simp
  have l: "commits_loop example_env [''bb22'', ''aa11''] [] Map.empty =
             (Inr [example_record 39600 150 90, example_record 36000 100 80],
              example_fs_after)"
    by (simp add: read_cache_def f1 f2 write_cache_def cache_path_def example_fs_after_def)
  have s: "sort_out example_env [example_record 39600 150 90, example_record 36000 100 80] =
             Inr [example_record 36000 100 80, example_record 39600 150 90]"
    by code_simp
  have gr: "group_loop [example_record 36000 100 80, example_record 39600 150 90] [] = Inr ?g"
    by code_simp
  have r: "git_Repo example_env = Inr ()"
    by (simp add: example_env_def)
  have run: "fetch_all_records example_env Map.empty = (Inr ?g, example_fs_after)"
    by (simp add: fetch_all_records_def g r l s gr del: commits_loop.simps group_loop.simps)
  have ne: "example_fs_after (cache_path ''aa11'') \<noteq> Map.empty (cache_path ''aa11'')"
    by (simp add: example_fs_after_def write_cache_def)
  note th = second_run_is_identical [OF rt run]
  from th have a: "fetch_all_records example_env example_fs_after = (Inr ?g, example_fs_after)"
    by (rule conjunct1)
  from th ne have b: "\<exists>commits ref. git_log example_env ''results.json'' = Inr commits \<and>
      ref \<in> set commits \<and> cache_path ''aa11'' = cache_path ref \<and> misses Map.empty ref"
    by blast
  from run a b show ?thesis by blast
qed

end
